theory Spec2Isabelle
  imports Main
begin

section \<open>The LiveRoom relay of src/index.ts\<close>

text \<open>
  The development embeds the second \<open>LiveRoom\<close> class of \<open>src/index.ts\<close> (the
  Durable Object holding a 30 second buffer of telemetry samples and the set of
  viewer sockets). Data follows the TypeScript declarations; the primitives of the
  hosting platform (\<open>Date.parse\<close>, \<open>WebSocketPair\<close>, \<open>WebSocket.send\<close>) are
  not part of the repository and are described where they are used.
\<close>

subsection \<open>Telemetry data\<close>

text \<open>
  \<open>accel_mps2\<close> and \<open>gyro_rads\<close> are \<open>{x, y, z}\<close> objects of numbers. The relay
  never computes with the payload numbers and never looks at them, so their type
  is the parameter \<open>'n\<close>: what the room does is the same for every type of value
  in these places.
\<close>

datatype 'n Vec3 = Vec3 (vec_x: 'n) (vec_y: 'n) (vec_z: 'n)

text \<open>An element of \<open>TelemetryBatch["samples"]\<close>.\<close>

record 'n Sample =
  t_gps_utc :: string
  seq :: 'n
  accel_mps2 :: "'n Vec3"
  gyro_rads :: "'n Vec3"

record 'n TelemetryBatch =
  session_id :: string
  device_id :: string
  samples :: "'n Sample list"

text \<open>
  \<open>type BufferedSample = TelemetryBatch["samples"][number] & { t_ms: number }\<close>: a
  sample extended by its parsed time. \<open>t_ms\<close> is only ever a finite result of
  \<open>Date.parse\<close>, an integral number of milliseconds of magnitude at most
  \<open>8.64e15\<close>, on which the arithmetic of the code is exact; it is an \<open>int\<close> here.
\<close>

record 'n BufferedSample = "'n Sample" +
  t_ms :: int

text \<open>The object spread \<open>{ ...s, t_ms }\<close>.\<close>

definition spread_t_ms :: "'n Sample \<Rightarrow> int \<Rightarrow> 'n BufferedSample" where
  "spread_t_ms s t = Sample.extend s (BufferedSample.fields t)"

text \<open>The destructuring \<open>({ t_ms, ...rest }) => rest\<close>.\<close>

definition rest_of :: "'n BufferedSample \<Rightarrow> 'n Sample" where
  "rest_of b = Sample.truncate b"

text \<open>
  The variable \<open>latest\<close> starts at \<open>-Infinity\<close> and is raised by \<open>Math.max\<close> to
  finite parsed times: a number that is \<open>-Infinity\<close> or an integer.
\<close>

datatype number = NegInfinity | Num int

fun Math_max :: "number \<Rightarrow> int \<Rightarrow> number" where
  "Math_max NegInfinity t = Num t"
| "Math_max (Num l) t = Num (max l t)"

text \<open>\<open>latestTsMs - this.WINDOW_MS\<close> and \<open>s.t_ms >= cutoff\<close> on such numbers.\<close>

fun number_minus :: "number \<Rightarrow> int \<Rightarrow> number" where
  "number_minus NegInfinity w = NegInfinity"
| "number_minus (Num l) w = Num (l - w)"

fun number_ge :: "int \<Rightarrow> number \<Rightarrow> bool" where
  "number_ge t NegInfinity = True"
| "number_ge t (Num c) = (t \<ge> c)"

subsection \<open>Messages, sockets and the state\<close>

text \<open>
  The two object literals handed to \<open>JSON.stringify\<close>:
  \<open>{ type: "replay", window_ms, samples }\<close> is \<open>Replay window_ms samples\<close> and
  \<open>{ type: "samples", session_id, device_id, samples }\<close> is
  \<open>SamplesMsg session_id device_id samples\<close>; \<open>msg_type\<close> is their \<open>type\<close> field.
\<close>

datatype 'n message =
  Replay int "'n Sample list"
| SamplesMsg string string "'n Sample list"

fun msg_type :: "'n message \<Rightarrow> string" where
  "msg_type (Replay w xs) = ''replay''"
| "msg_type (SamplesMsg sid did xs) = ''samples''"

fun msg_samples :: "'n message \<Rightarrow> 'n Sample list" where
  "msg_samples (Replay w xs) = xs"
| "msg_samples (SamplesMsg sid did xs) = xs"

text \<open>A server-side \<open>WebSocket\<close> object, by identity.\<close>

type_synonym ws = nat

text \<open>
  The fields of the class: \<open>buffer\<close> and \<open>sockets\<close>. A JavaScript \<open>Set\<close> iterates in
  insertion order and holds no element twice: a list without repetition.
\<close>

record 'n LiveRoom =
  buffer :: "'n BufferedSample list"
  sockets :: "ws list"

text \<open>
  The room together with the part of the platform its code acts on: for every
  socket the messages \<open>send\<close> has delivered to it (\<open>outbox\<close>), the sockets on which
  \<open>send\<close> throws (\<open>broken\<close>), and the identity the next \<open>new WebSocketPair()\<close>
  returns (\<open>next_ws\<close>).
\<close>

record 'n World = "'n LiveRoom" +
  outbox :: "ws \<Rightarrow> 'n message list"
  broken :: "ws set"
  next_ws :: ws

definition WINDOW_MS :: int where
  "WINDOW_MS = 30000"

definition new_world :: "'n World" where
  "new_world = \<lparr>buffer = [], sockets = [], outbox = (\<lambda>w. []), broken = {}, next_ws = 0\<rparr>"

text \<open>What the platform throws at the room: from \<open>send\<close> and from \<open>close\<close>.\<close>

datatype exn = SendFailed | CloseFailed

text \<open>\<open>Set.prototype.add\<close> and \<open>Set.prototype.delete\<close>.\<close>

definition set_add :: "ws \<Rightarrow> ws list \<Rightarrow> ws list" where
  "set_add w xs = (if w \<in> set xs then xs else xs @ [w])"

definition set_delete :: "ws \<Rightarrow> ws list \<Rightarrow> ws list" where
  "set_delete w xs = removeAll w xs"

text \<open>
  \<open>ws.send(msg)\<close>: throws on a broken socket and changes nothing; otherwise the
  message is queued for the peer.
\<close>

definition ws_send :: "ws \<Rightarrow> 'n message \<Rightarrow> 'n World \<Rightarrow> (exn + unit) \<times> 'n World" where
  "ws_send w m st =
     (if w \<in> broken st then (Inl SendFailed, st)
      else (Inr (), st\<lparr>outbox := (outbox st)(w := outbox st w @ [m])\<rparr>))"

subsection \<open>The methods of LiveRoom\<close>

definition pruneBuffer :: "number \<Rightarrow> 'n World \<Rightarrow> 'n World" where
  "pruneBuffer latestTsMs st =
     (let cutoff = number_minus latestTsMs WINDOW_MS
      in st\<lparr>buffer := filter (\<lambda>s. number_ge (t_ms s) cutoff) (buffer st)\<rparr>)"

text \<open>
  The loop of \<open>broadcast\<close> over \<open>this.sockets\<close>; the \<open>catch\<close> block is empty, so
  both outcomes of \<open>send\<close> continue with the next socket.
\<close>

fun broadcast_loop :: "ws list \<Rightarrow> 'n message \<Rightarrow> 'n World \<Rightarrow> (exn + unit) \<times> 'n World" where
  "broadcast_loop [] m st = (Inr (), st)"
| "broadcast_loop (w # ws) m st =
     (case ws_send w m st of
        (Inl e, st') \<Rightarrow> broadcast_loop ws m st'
      | (Inr u, st') \<Rightarrow> broadcast_loop ws m st')"

definition broadcast :: "'n message \<Rightarrow> 'n World \<Rightarrow> (exn + unit) \<times> 'n World" where
  "broadcast obj st = broadcast_loop (sockets st) obj st"

text \<open>
  \<open>new WebSocketPair()\<close>: a socket object that did not exist before, with nothing
  sent on it and able to send. The pair is one identity here; \<open>pair[1]\<close>, the server
  end, is what the room keeps, and \<open>pair[0]\<close> goes into the response.
\<close>

definition new_WebSocketPair :: "'n World \<Rightarrow> ws \<times> 'n World" where
  "new_WebSocketPair st =
     (let p = next_ws st
      in (p, st\<lparr>outbox := (outbox st)(p := []), broken := broken st - {p}, next_ws := Suc p\<rparr>))"

text \<open>\<open>new Response(body, { status, headers, webSocket })\<close>.\<close>

datatype resp_body = Text string | IngestAck (ok: bool) (received: nat) | NoBody

record Response =
  status :: nat
  body :: resp_body
  headers :: "(string \<times> string) list"
  webSocket :: "ws option"

definition text_response :: "string \<Rightarrow> nat \<Rightarrow> Response" where
  "text_response txt code = \<lparr>status = code, body = Text txt, headers = [], webSocket = None\<rparr>"

text \<open>
  The success response of \<open>handleIngest\<close>: status 200, content type JSON, body
  \<open>JSON.stringify({ ok: true, received })\<close>.
\<close>

definition ok_response :: "nat \<Rightarrow> Response" where
  "ok_response n = \<lparr>status = 200, body = IngestAck True n,
                     headers = [(''content-type'', ''application/json'')], webSocket = None\<rparr>"

definition upgrade_response :: "ws \<Rightarrow> Response" where
  "upgrade_response client = \<lparr>status = 101, body = NoBody, headers = [], webSocket = Some client\<rparr>"

text \<open>
  What the room reads of a \<open>Request\<close>: \<open>request.method\<close> (the field
  \<open>request_method\<close>), the result of
  \<open>request.headers.get("Upgrade")\<close> (\<open>None\<close> is \<open>null\<close>), \<open>new URL(request.url).pathname\<close>
  and the outcome of \<open>await request.json()\<close>, where \<open>None\<close> stands for the
  exception of a body that is not JSON and \<open>Some batch\<close> for the decoded value,
  which the code takes to be a \<open>TelemetryBatch\<close> (\<open>as TelemetryBatch\<close>). The cast is
  not checked when the code runs. JSON without the fields of the declaration
  (\<open>null\<close>, \<open>{}\<close>, a \<open>samples\<close> array holding \<open>null\<close>, a sample without
  \<open>t_gps_utc\<close>) cannot be written in this record, and nothing is stated about such
  bodies.
\<close>

record 'n Request =
  request_method :: string
  header_Upgrade :: "string option"
  pathname :: string
  json :: "'n TelemetryBatch option"

text \<open>
  \<open>acceptViewerWebSocket\<close>: the pair, \<open>server.accept()\<close> (which starts the socket
  and changes nothing the room reads), \<open>this.sockets.add(server)\<close>, and the
  \<open>send\<close> of the replay, which is not inside a \<open>try\<close>: if it threw, the exception
  would leave the method with the socket already in the set.
\<close>

definition acceptViewerWebSocket :: "'n World \<Rightarrow> (exn + Response) \<times> 'n World" where
  "acceptViewerWebSocket st =
     (let (server, st1) = new_WebSocketPair st;
          st2 = st1\<lparr>sockets := set_add server (sockets st1)\<rparr>
      in case ws_send server (Replay WINDOW_MS (map rest_of (buffer st2))) st2 of
           (Inl e, st3) \<Rightarrow> (Inl e, st3)
         | (Inr u, st3) \<Rightarrow> (Inr (upgrade_response server), st3))"

text \<open>
  The listeners registered by \<open>acceptViewerWebSocket\<close> on the server socket.
  \<open>server.close()\<close> leaves the socket unable to send, and throws on a socket that
  already is; the handler catches that.
\<close>

definition ws_close :: "ws \<Rightarrow> 'n World \<Rightarrow> (exn + unit) \<times> 'n World" where
  "ws_close w st =
     (if w \<in> broken st then (Inl CloseFailed, st)
      else (Inr (), st\<lparr>broken := insert w (broken st)\<rparr>))"

definition on_close :: "ws \<Rightarrow> 'n World \<Rightarrow> 'n World" where
  "on_close server st = st\<lparr>sockets := set_delete server (sockets st)\<rparr>"

definition on_error :: "ws \<Rightarrow> 'n World \<Rightarrow> 'n World" where
  "on_error server st =
     (let st1 = st\<lparr>sockets := set_delete server (sockets st)\<rparr>
      in case ws_close server st1 of
           (Inl e, st2) \<Rightarrow> st2
         | (Inr u, st2) \<Rightarrow> st2)"

definition on_message :: "ws \<Rightarrow> 'n World \<Rightarrow> 'n World" where
  "on_message server st = st"

text \<open>
  \<open>handleIngest\<close>. Its one \<open>await\<close>, of \<open>request.json()\<close>, comes before it reads or
  writes a field of the room, so a call is one step on the state. With the declared
  type of \<open>batch\<close>, the guard \<open>!batch?.samples?.length\<close> is the test for an empty
  array of samples. The arrays of the model have no bound on their length; in the
  engine the spread of \<open>this.buffer.push(...newBuffered)\<close> fails on a batch of
  some hundred thousand samples.

  The parse loop of \<open>handleIngest\<close>, with its two variables \<open>latest\<close> and
  \<open>newBuffered\<close>. \<open>Date_parse\<close> is \<open>Date.parse\<close> followed by the test
  \<open>Number.isFinite\<close>: \<open>None\<close> for \<open>NaN\<close>, \<open>Some t\<close> for the finite time \<open>t\<close>. The
  function belongs to the JavaScript engine and is a parameter throughout.
\<close>

fun parse_loop ::
  "(string \<Rightarrow> int option) \<Rightarrow> 'n Sample list \<Rightarrow> number \<times> 'n BufferedSample list
     \<Rightarrow> number \<times> 'n BufferedSample list" where
  "parse_loop Date_parse [] (latest, newBuffered) = (latest, newBuffered)"
| "parse_loop Date_parse (s # ss) (latest, newBuffered) =
     (case Date_parse (t_gps_utc s) of
        None \<Rightarrow> parse_loop Date_parse ss (latest, newBuffered)
      | Some t \<Rightarrow>
          parse_loop Date_parse ss (Math_max latest t, newBuffered @ [spread_t_ms s t]))"

definition handleIngest ::
  "(string \<Rightarrow> int option) \<Rightarrow> 'n Request \<Rightarrow> 'n World \<Rightarrow> (exn + Response) \<times> 'n World" where
  "handleIngest Date_parse request st =
     (if request_method request \<noteq> ''POST'' then (Inr (text_response ''Method Not Allowed'' 405), st)
      else case json request of
        None \<Rightarrow> (Inr (text_response ''Bad JSON'' 400), st)
      | Some batch \<Rightarrow>
          if length (samples batch) = 0 then (Inr (text_response ''Missing samples'' 400), st)
          else
            let (latest, newBuffered) = parse_loop Date_parse (samples batch) (NegInfinity, [])
            in if length newBuffered = 0
               then (Inr (text_response ''No valid timestamps'' 400), st)
               else
                 let st1 = st\<lparr>buffer := buffer st @ newBuffered\<rparr>;
                     st2 = pruneBuffer latest st1
                 in case broadcast (SamplesMsg (session_id batch) (device_id batch)
                                      (map rest_of newBuffered)) st2 of
                      (Inl e, st3) \<Rightarrow> (Inl e, st3)
                    | (Inr u, st3) \<Rightarrow> (Inr (ok_response (length newBuffered)), st3))"

text \<open>
  \<open>String.prototype.toLowerCase\<close> on a header value whose characters are single
  bytes (Latin-1): the letters \<open>A\<close> to \<open>Z\<close> and the capital letters \<open>0xC0\<close> to \<open>0xDE\<close>
  (without the multiplication sign \<open>0xD7\<close>) move up by 32, everything else stays.
  Header text with other characters is not written in this type of string; what
  is stated below about equality in any case of the letters is stated of text of
  ASCII characters.
\<close>

definition lower_char :: "char \<Rightarrow> char" where
  "lower_char c =
     (let n = (of_char c :: nat)
      in if (65 \<le> n \<and> n \<le> 90) \<or> (192 \<le> n \<and> n \<le> 222 \<and> n \<noteq> 215)
         then char_of (n + 32) else c)"

definition toLowerCase :: "string \<Rightarrow> string" where
  "toLowerCase s = map lower_char s"

definition fetch ::
  "(string \<Rightarrow> int option) \<Rightarrow> 'n Request \<Rightarrow> 'n World \<Rightarrow> (exn + Response) \<times> 'n World" where
  "fetch Date_parse request st =
     (let upgrade = header_Upgrade request
      in if (case upgrade of None \<Rightarrow> False
                           | Some u \<Rightarrow> u \<noteq> [] \<and> toLowerCase u = ''websocket'')
         then acceptViewerWebSocket st
         else if pathname request = ''/ingest'' then handleIngest Date_parse request st
         else (Inr (text_response ''Not Found'' 404), st))"

text \<open>
  What can happen to a room: a request arrives, or one of the socket events fires
  for which \<open>acceptViewerWebSocket\<close> registered a listener. \<open>SocketFails\<close> is the
  platform alone: a peer goes away and \<open>send\<close> on its socket throws from then on.
\<close>

datatype 'n event =
  FetchEv "'n Request"
| CloseEv ws
| ErrorEv ws
| MessageEv ws
| SocketFails ws

fun step :: "(string \<Rightarrow> int option) \<Rightarrow> 'n event \<Rightarrow> 'n World \<Rightarrow> 'n World" where
  "step Date_parse (FetchEv request) st = snd (fetch Date_parse request st)"
| "step Date_parse (CloseEv w) st = on_close w st"
| "step Date_parse (ErrorEv w) st = on_error w st"
| "step Date_parse (MessageEv w) st = on_message w st"
| "step Date_parse (SocketFails w) st = st\<lparr>broken := insert w (broken st)\<rparr>"

text \<open>The state of a room after a sequence of events.\<close>

fun run :: "(string \<Rightarrow> int option) \<Rightarrow> 'n event list \<Rightarrow> 'n World \<Rightarrow> 'n World" where
  "run Date_parse [] st = st"
| "run Date_parse (ev # evs) st = run Date_parse evs (step Date_parse ev st)"

subsection \<open>The values of one ingest\<close>

text \<open>
  The two results of the parse loop on a batch, as \<open>handleIngest\<close> starts it: the
  list \<open>newBuffered\<close> it appends to the buffer, and \<open>latest\<close>.
\<close>

definition appended :: "(string \<Rightarrow> int option) \<Rightarrow> 'n TelemetryBatch \<Rightarrow> 'n BufferedSample list" where
  "appended Date_parse batch = snd (parse_loop Date_parse (samples batch) (NegInfinity, []))"

definition latest_of :: "(string \<Rightarrow> int option) \<Rightarrow> 'n TelemetryBatch \<Rightarrow> number" where
  "latest_of Date_parse batch = fst (parse_loop Date_parse (samples batch) (NegInfinity, []))"

text \<open>
  In the words of the specification: the samples of a batch whose capture time
  parses to a finite value, in batch order, and the parsed times themselves.
\<close>

definition valid_samples :: "(string \<Rightarrow> int option) \<Rightarrow> 'n TelemetryBatch \<Rightarrow> 'n Sample list" where
  "valid_samples Date_parse batch = filter (\<lambda>s. Date_parse (t_gps_utc s) \<noteq> None) (samples batch)"

definition parsed_times :: "(string \<Rightarrow> int option) \<Rightarrow> 'n TelemetryBatch \<Rightarrow> int list" where
  "parsed_times Date_parse batch = List.map_filter (\<lambda>s. Date_parse (t_gps_utc s)) (samples batch)"

text \<open>
  In the words of the specification: two header values are equal case-insensitively
  when they agree after the letters \<open>A\<close> to \<open>Z\<close> are replaced by \<open>a\<close> to \<open>z\<close>.
\<close>

definition ascii_lower :: "char \<Rightarrow> char" where
  "ascii_lower c =
     (let n = (of_char c :: nat) in if 65 \<le> n \<and> n \<le> 90 then char_of (n + 32) else c)"

definition equal_ignoring_case :: "string \<Rightarrow> string \<Rightarrow> bool" where
  "equal_ignoring_case a b = (map ascii_lower a = map ascii_lower b)"

subsection \<open>Concrete data for the scenarios\<close>

text \<open>
  The values of \<open>Date.parse\<close> on the ISO 8601 strings of the scenarios below
  (milliseconds since 1970-01-01T00:00:00Z); every other string used with this
  table, such as \<open>not-a-date\<close>, is one on which \<open>Date.parse\<close> yields \<open>NaN\<close>.
\<close>

definition Date_parse_demo :: "string \<Rightarrow> int option" where
  "Date_parse_demo =
     map_of [(''1970-01-01T00:00:01.000Z'', 1000), (''1970-01-01T00:00:02.000Z'', 2000),
             (''1970-01-01T00:00:03.000Z'', 3000), (''1970-01-01T00:00:03.500Z'', 3500),
             (''1970-01-01T00:00:40.000Z'', 40000), (''1970-01-01T00:01:00.000Z'', 60000),
             (''1970-01-01T00:01:40.000Z'', 100000)]"

definition sample_at :: "string \<Rightarrow> int Sample" where
  "sample_at ts = \<lparr>t_gps_utc = ts, seq = 0, accel_mps2 = Vec3 0 0 0, gyro_rads = Vec3 0 0 0\<rparr>"

definition batch_of :: "string list \<Rightarrow> int TelemetryBatch" where
  "batch_of tss = \<lparr>session_id = ''s1'', device_id = ''d1'', samples = map sample_at tss\<rparr>"

text \<open>A request to \<open>/ingest\<close> without an \<open>Upgrade\<close> header, by method and decoded body.\<close>

definition ingest_request :: "string \<Rightarrow> int TelemetryBatch option \<Rightarrow> int Request" where
  "ingest_request m b = \<lparr>request_method = m, header_Upgrade = None, pathname = ''/ingest'', json = b\<rparr>"

text \<open>
  A room in use: one sample at 1000 ms in the buffer and two viewers, each of
  which got the replay of an empty buffer when it subscribed; the peer of socket 0,
  the first in the set, has gone away since.
\<close>

definition busy_world :: "int World" where
  "busy_world =
     \<lparr>buffer = [spread_t_ms (sample_at ''1970-01-01T00:00:01.000Z'') 1000],
      sockets = [0, 1],
      outbox = (\<lambda>w. if w < 2 then [Replay 30000 []] else []),
      broken = {0},
      next_ws = 2\<rparr>"


text \<open>
  A body that is JSON and is not a Batch. Where the declaration of \<open>TelemetryBatch\<close>
  says \<open>number\<close> a JSON body can hold any value, and the cast \<open>as TelemetryBatch\<close>
  lets it through: the values of JSON in such a place, with the integers for the
  numbers. A body is a Batch when all of them are numbers.
\<close>

datatype jsval = JNumber int | JString string | JNull

definition is_number :: "jsval \<Rightarrow> bool" where
  "is_number v = (case v of JNumber n \<Rightarrow> True | JString x \<Rightarrow> False | JNull \<Rightarrow> False)"

definition is_Batch :: "jsval TelemetryBatch \<Rightarrow> bool" where
  "is_Batch b =
     list_all (\<lambda>s. is_number (seq s) \<and>
                 list_all is_number
                   [vec_x (accel_mps2 s), vec_y (accel_mps2 s), vec_z (accel_mps2 s),
                    vec_x (gyro_rads s), vec_y (gyro_rads s), vec_z (gyro_rads s)])
       (samples b)"

text \<open>
  The body
  \<open>{"session_id":"s1","device_id":"d1","samples":[{"t_gps_utc":"1970-01-01T00:00:01.000Z",
  "seq":"one","accel_mps2":{"x":null,"y":null,"z":null},"gyro_rads":{"x":null,"y":null,"z":null}}]}\<close>.
\<close>

definition not_a_batch :: "jsval TelemetryBatch" where
  "not_a_batch =
     \<lparr>session_id = ''s1'', device_id = ''d1'',
      samples = [\<lparr>t_gps_utc = ''1970-01-01T00:00:01.000Z'', seq = JString ''one'',
                  accel_mps2 = Vec3 JNull JNull JNull,
                  gyro_rads = Vec3 JNull JNull JNull\<rparr>]\<rparr>"

text \<open>
  A \<open>POST\<close> to \<open>/ingest\<close> with a good batch in its body and the header
  \<open>Upgrade: WebSocket\<close>.
\<close>

definition upgrade_request :: "int Request" where
  "upgrade_request =
     \<lparr>request_method = ''POST'', header_Upgrade = Some ''WebSocket'', pathname = ''/ingest'',
      json = Some (batch_of [''1970-01-01T00:00:40.000Z''])\<rparr>"

text \<open>
  A late batch: into a new room a sample at 100000 ms, then a batch with one
  sample at 60000 ms; the two states reached.
\<close>

definition late_batch_run :: "int World \<times> int World" where
  "late_batch_run =
     (let st1 = snd (handleIngest Date_parse_demo (ingest_request ''POST'' (Some (batch_of
                  [''1970-01-01T00:01:40.000Z'']))) new_world);
          st2 = snd (handleIngest Date_parse_demo (ingest_request ''POST'' (Some (batch_of
                  [''1970-01-01T00:01:00.000Z'']))) st1)
      in (st1, st2))"

text \<open>A message to broadcast.\<close>

definition hello :: "int message" where
  "hello = SamplesMsg ''s1'' ''d1'' [sample_at ''1970-01-01T00:00:02.000Z'']"

section \<open>Properties of the parse loop and of broadcast\<close>

lemma rest_of_spread: "rest_of (spread_t_ms s t) = s"
  by (simp add: rest_of_def spread_t_ms_def Sample.truncate_def Sample.extend_def BufferedSample.fields_def)

lemma t_ms_spread: "t_ms (spread_t_ms s t) = t"
  by (simp add: spread_t_ms_def Sample.extend_def BufferedSample.fields_def)

lemma snd_parse_loop:
  "snd (parse_loop P xs (l, nb)) =
     nb @ List.map_filter (\<lambda>s. map_option (spread_t_ms s) (P (t_gps_utc s))) xs"
  by (induction xs arbitrary: l nb) (auto simp: List.map_filter_simps split: option.splits)

lemma fst_parse_loop:
  "fst (parse_loop P xs (l, nb)) = foldl Math_max l (List.map_filter (\<lambda>s. P (t_gps_utc s)) xs)"
  by (induction xs arbitrary: l nb) (auto simp: List.map_filter_simps split: option.splits)

lemma foldl_Math_max_Num: "foldl Math_max (Num l) ts = Num (Max (set (l # ts)))"
proof (induction ts arbitrary: l)
  case Nil
  then show ?case by simp
next
  case (Cons t ts)
  have "Max (insert (max l t) (set ts)) = Max (insert l (insert t (set ts)))"
    by (cases "set ts = {}") (simp_all add: max.assoc)
  then show ?case using Cons by simp
qed

lemma foldl_Math_max_NegInfinity:
  "ts \<noteq> [] \<Longrightarrow> foldl Math_max NegInfinity ts = Num (Max (set ts))"
  by (cases ts) (simp_all add: foldl_Math_max_Num)

lemma map_rest_of_appended: "map rest_of (appended P b) = valid_samples P b"
proof -
  have "map rest_of (List.map_filter (\<lambda>s. map_option (spread_t_ms s) (P (t_gps_utc s))) xs)
          = filter (\<lambda>s. P (t_gps_utc s) \<noteq> None) xs" for xs :: "'a Sample list"
    by (induction xs) (auto simp: List.map_filter_simps rest_of_spread split: option.splits)
  then show ?thesis
    by (simp add: appended_def valid_samples_def snd_parse_loop)
qed

lemma map_t_ms_appended: "map t_ms (appended P b) = parsed_times P b"
proof -
  have "map t_ms (List.map_filter (\<lambda>s. map_option (spread_t_ms s) (P (t_gps_utc s))) xs)
          = List.map_filter (\<lambda>s. P (t_gps_utc s)) xs" for xs :: "'a Sample list"
    by (induction xs) (auto simp: List.map_filter_simps t_ms_spread split: option.splits)
  then show ?thesis
    by (simp add: appended_def parsed_times_def snd_parse_loop)
qed

lemma length_appended: "length (appended P b) = length (valid_samples P b)"
  using map_rest_of_appended [of P b] by (metis length_map)

lemma latest_of_Max:
  "appended P b \<noteq> [] \<Longrightarrow> latest_of P b = Num (Max (set (parsed_times P b)))"
proof -
  assume "appended P b \<noteq> []"
  then have "parsed_times P b \<noteq> []"
    using map_t_ms_appended [of P b] by (metis map_is_Nil_conv)
  then show ?thesis
    by (simp add: latest_of_def parsed_times_def fst_parse_loop foldl_Math_max_NegInfinity)
qed

lemma parse_loop_pair: "parse_loop P (samples b) (NegInfinity, []) = (latest_of P b, appended P b)"
  by (simp add: latest_of_def appended_def)

lemma ws_send_frame:
  "buffer (snd (ws_send w m st)) = buffer st"
  "sockets (snd (ws_send w m st)) = sockets st"
  "broken (snd (ws_send w m st)) = broken st"
  "next_ws (snd (ws_send w m st)) = next_ws st"
  by (simp_all add: ws_send_def)

lemma broadcast_loop_returns: "fst (broadcast_loop ws m st) = Inr ()"
  by (induction ws arbitrary: st) (auto split: prod.splits sum.splits)

lemma broadcast_loop_frame:
  "buffer (snd (broadcast_loop ws m st)) = buffer st \<and>
   sockets (snd (broadcast_loop ws m st)) = sockets st \<and>
   broken (snd (broadcast_loop ws m st)) = broken st \<and>
   next_ws (snd (broadcast_loop ws m st)) = next_ws st"
proof (induction ws arbitrary: st)
  case Nil
  then show ?case by simp
next
  case (Cons w ws)
  obtain r st1 where r: "ws_send w m st = (r, st1)" by (cases "ws_send w m st")
  have "buffer st1 = buffer st" "sockets st1 = sockets st" "broken st1 = broken st" "next_ws st1 = next_ws st"
    using ws_send_frame [of w m st] r by simp_all
  then show ?case using Cons [of st1] r by (cases r) simp_all
qed

lemma broadcast_loop_outbox:
  "distinct ws \<Longrightarrow>
   outbox (snd (broadcast_loop ws m st)) w =
     (if w \<in> set ws \<and> w \<notin> broken st then outbox st w @ [m] else outbox st w)"
proof (induction ws arbitrary: st)
  case Nil
  then show ?case by simp
next
  case (Cons v ws)
  obtain r st1 where r: "ws_send v m st = (r, st1)" by (cases "ws_send v m st")
  have b: "broken st1 = broken st" using ws_send_frame(3) [of v m st] r by simp
  have o: "outbox st1 w = (if w = v \<and> v \<notin> broken st then outbox st w @ [m] else outbox st w)"
    using r by (auto simp: ws_send_def split: if_splits)
  have "outbox (snd (broadcast_loop (v # ws) m st)) w = outbox (snd (broadcast_loop ws m st1)) w"
    using r by (cases r) simp_all
  also have "\<dots> = (if w \<in> set ws \<and> w \<notin> broken st1 then outbox st1 w @ [m] else outbox st1 w)"
    using Cons by simp
  finally show ?case using b o Cons.prems by auto
qed


lemma broadcast_returns: "fst (broadcast m st) = Inr ()"
  by (simp add: broadcast_def broadcast_loop_returns)

lemma broadcast_frame:
  "buffer (snd (broadcast m st)) = buffer st"
  "sockets (snd (broadcast m st)) = sockets st"
  "broken (snd (broadcast m st)) = broken st"
  "next_ws (snd (broadcast m st)) = next_ws st"
  using broadcast_loop_frame [of "sockets st" m st] by (simp_all add: broadcast_def)

lemma broadcast_outbox:
  "distinct (sockets st) \<Longrightarrow>
   outbox (snd (broadcast m st)) w =
     (if w \<in> set (sockets st) \<and> w \<notin> broken st then outbox st w @ [m] else outbox st w)"
  using broadcast_loop_outbox [of "sockets st" m st w] by (simp add: broadcast_def)

lemma handleIngest_accepts:
  assumes "request_method req = ''POST''" and "json req = Some b" and "appended P b \<noteq> []"
  shows "handleIngest P req st =
           (Inr (ok_response (length (appended P b))),
            snd (broadcast (SamplesMsg (session_id b) (device_id b) (map rest_of (appended P b)))
                   (pruneBuffer (latest_of P b) (st\<lparr>buffer := buffer st @ appended P b\<rparr>))))"
proof -
  have ne: "samples b \<noteq> []"
    using assms(3) by (auto simp: appended_def)
  obtain r st3 where r: "broadcast (SamplesMsg (session_id b) (device_id b) (map rest_of (appended P b)))
                   (pruneBuffer (latest_of P b) (st\<lparr>buffer := buffer st @ appended P b\<rparr>)) = (r, st3)"
    by (cases "broadcast (SamplesMsg (session_id b) (device_id b) (map rest_of (appended P b)))
                   (pruneBuffer (latest_of P b) (st\<lparr>buffer := buffer st @ appended P b\<rparr>))")
  have "r = Inr ()" using broadcast_returns [of "SamplesMsg (session_id b) (device_id b) (map rest_of (appended P b))"
      "pruneBuffer (latest_of P b) (st\<lparr>buffer := buffer st @ appended P b\<rparr>)"] r by simp
  then show ?thesis
    using assms ne r by (simp add: handleIngest_def parse_loop_pair ok_response_def)
qed

lemma handleIngest_cases:
  "handleIngest P req st =
     (if request_method req \<noteq> ''POST'' then (Inr (text_response ''Method Not Allowed'' 405), st)
      else case json req of
        None \<Rightarrow> (Inr (text_response ''Bad JSON'' 400), st)
      | Some b \<Rightarrow>
          if samples b = [] then (Inr (text_response ''Missing samples'' 400), st)
          else if appended P b = [] then (Inr (text_response ''No valid timestamps'' 400), st)
          else (Inr (ok_response (length (appended P b))),
            snd (broadcast (SamplesMsg (session_id b) (device_id b) (map rest_of (appended P b)))
                   (pruneBuffer (latest_of P b) (st\<lparr>buffer := buffer st @ appended P b\<rparr>)))))"
proof (cases "request_method req = ''POST''")
  case False
  then show ?thesis by (simp add: handleIngest_def)
next
  case post: True
  show ?thesis
  proof (cases "json req")
    case None
    then show ?thesis using post by (simp add: handleIngest_def)
  next
    case (Some b)
    show ?thesis
    proof (cases "samples b = [] \<or> appended P b = []")
      case True
      then show ?thesis using post Some
        by (auto simp: handleIngest_def parse_loop_pair)
    next
      case False
      then show ?thesis using post Some handleIngest_accepts [of req b P st] by simp
    qed
  qed
qed

lemma handleIngest_success_iff:
  assumes "handleIngest P req st = (Inr resp, st')" and "status resp = 200"
  shows "\<exists>b. request_method req = ''POST'' \<and> json req = Some b \<and> appended P b \<noteq> [] \<and>
             resp = ok_response (length (appended P b)) \<and>
             st' = snd (broadcast (SamplesMsg (session_id b) (device_id b) (map rest_of (appended P b)))
                   (pruneBuffer (latest_of P b) (st\<lparr>buffer := buffer st @ appended P b\<rparr>)))"
  using assms unfolding handleIngest_cases
  by (auto simp: text_response_def split: if_splits option.splits)

lemma buffer_after_ingest:
  assumes "handleIngest P req st = (Inr resp, st')" and "status resp = 200"
  shows "\<exists>b. json req = Some b \<and> appended P b \<noteq> [] \<and>
           buffer st' = filter (\<lambda>x. t_ms x \<ge> Max (set (parsed_times P b)) - 30000)
                          (buffer st @ appended P b)"
proof -
  obtain b where b: "json req = Some b" "appended P b \<noteq> []"
    "st' = snd (broadcast (SamplesMsg (session_id b) (device_id b) (map rest_of (appended P b)))
                   (pruneBuffer (latest_of P b) (st\<lparr>buffer := buffer st @ appended P b\<rparr>)))"
    using handleIngest_success_iff [OF assms] by blast
  have "buffer st' = buffer (pruneBuffer (latest_of P b) (st\<lparr>buffer := buffer st @ appended P b\<rparr>))"
    using b(3) by (simp add: broadcast_frame)
  also have "\<dots> = filter (\<lambda>x. t_ms x \<ge> Max (set (parsed_times P b)) - 30000) (buffer st @ appended P b)"
    using latest_of_Max [OF b(2)] by (simp add: pruneBuffer_def WINDOW_MS_def)
  finally show ?thesis using b by blast
qed

lemma lower_char_ascii: "(of_char c :: nat) < 128 \<Longrightarrow> lower_char c = ascii_lower c"
  by (simp add: lower_char_def ascii_lower_def Let_def)

lemma toLowerCase_ascii:
  "\<forall>c \<in> set v. (of_char c :: nat) < 128 \<Longrightarrow> toLowerCase v = map ascii_lower v"
  by (simp add: toLowerCase_def lower_char_ascii)

lemma ascii_lower_ascii: "(of_char (ascii_lower c) :: nat) < 128 \<Longrightarrow> (of_char c :: nat) < 128"
  by (auto simp: ascii_lower_def Let_def split: if_splits)

lemma map_ascii_lower_websocket: "map ascii_lower ''websocket'' = ''websocket''"
  by (simp add: ascii_lower_def char_of_eq_iff)

lemma equal_ignoring_case_ascii:
  assumes "equal_ignoring_case u ''websocket''"
  shows "\<forall>c \<in> set u. (of_char c :: nat) < 128"
proof
  fix c assume c: "c \<in> set u"
  have m: "map ascii_lower u = ''websocket''"
    using assms by (simp only: equal_ignoring_case_def map_ascii_lower_websocket)
  have "ascii_lower c \<in> set (map ascii_lower u)"
    using c by simp
  then have "ascii_lower c \<in> set ''websocket''"
    by (simp only: m)
  then have "(of_char (ascii_lower c) :: nat) < 128"
    by auto
  then show "(of_char c :: nat) < 128"
    by (rule ascii_lower_ascii)
qed

lemma toLowerCase_websocket:
  assumes "equal_ignoring_case u ''websocket''"
  shows "toLowerCase u = ''websocket''"
proof -
  have "toLowerCase u = map ascii_lower u"
    by (rule toLowerCase_ascii [OF equal_ignoring_case_ascii [OF assms]])
  also have "\<dots> = ''websocket''"
    using assms by (simp only: equal_ignoring_case_def map_ascii_lower_websocket)
  finally show ?thesis .
qed

lemma toLowerCase_not_websocket:
  assumes "\<forall>c \<in> set v. (of_char c :: nat) < 128"
    and "\<not> equal_ignoring_case v ''websocket''"
  shows "toLowerCase v \<noteq> ''websocket''"
proof -
  have "toLowerCase v = map ascii_lower v"
    by (rule toLowerCase_ascii [OF assms(1)])
  moreover have "map ascii_lower v \<noteq> ''websocket''"
    using assms(2) unfolding equal_ignoring_case_def map_ascii_lower_websocket .
  ultimately show ?thesis by metis
qed

text \<open>The decoding step: a \<open>POST\<close> whose body is not JSON is answered 400, the room untouched.\<close>

lemma handleIngest_bad_json:
  "request_method request = ''POST'' \<Longrightarrow> json request = None \<Longrightarrow>
   handleIngest Date_parse request st = (Inr (text_response ''Bad JSON'' 400), st)"
  by (simp add: handleIngest_def)

lemmas eval_simps = handleIngest_def ingest_request_def batch_of_def sample_at_def
  Date_parse_demo_def new_world_def busy_world_def pruneBuffer_def broadcast_def WINDOW_MS_def
  spread_t_ms_def rest_of_def Sample.extend_def Sample.truncate_def BufferedSample.fields_def
  ok_response_def text_response_def upgrade_response_def ws_send_def valid_samples_def
  parsed_times_def appended_def List.map_filter_simps


subsection \<open>The set of sockets\<close>

lemma acceptViewerWebSocket_eq:
  "acceptViewerWebSocket st =
     (Inr (upgrade_response (next_ws st)),
      st\<lparr>sockets := set_add (next_ws st) (sockets st),
         outbox := (outbox st)(next_ws st := [Replay WINDOW_MS (map rest_of (buffer st))]),
         broken := broken st - {next_ws st},
         next_ws := Suc (next_ws st)\<rparr>)"
  by (simp add: acceptViewerWebSocket_def new_WebSocketPair_def ws_send_def Let_def)

lemma fetch_cases:
  "fetch P request st =
     (if (\<exists>u. header_Upgrade request = Some u \<and> toLowerCase u = ''websocket'')
      then acceptViewerWebSocket st
      else if pathname request = ''/ingest'' then handleIngest P request st
      else (Inr (text_response ''Not Found'' 404), st))"
  by (auto simp: fetch_def Let_def toLowerCase_def split: option.splits)

lemma sockets_handleIngest: "sockets (snd (handleIngest P request st)) = sockets st"
  by (simp add: handleIngest_cases broadcast_frame pruneBuffer_def Let_def split: option.splits)

lemma sockets_fetch: "set (sockets st) \<subseteq> set (sockets (snd (fetch P request st)))"
  by (auto simp: fetch_cases acceptViewerWebSocket_eq sockets_handleIngest set_add_def)

lemma sockets_step:
  assumes "w \<in> set (sockets st)" and "w \<notin> set (sockets (step P ev st))"
  shows "ev = CloseEv w \<or> ev = ErrorEv w"
proof (cases ev)
  case (FetchEv request)
  then show ?thesis using assms sockets_fetch [of st P request] by auto
next
  case (CloseEv v)
  then show ?thesis using assms by (auto simp: on_close_def set_delete_def)
next
  case (ErrorEv v)
  then show ?thesis using assms
    by (auto simp: on_error_def set_delete_def ws_close_def Let_def split: if_splits)
next
  case (MessageEv v)
  then show ?thesis using assms by (simp add: on_message_def)
next
  case (SocketFails v)
  then show ?thesis using assms by simp
qed

lemma distinct_sockets_step:
  assumes "distinct (sockets st)"
  shows "distinct (sockets (step P ev st))"
proof (cases ev)
  case (FetchEv request)
  then show ?thesis using assms
    by (auto simp: fetch_cases acceptViewerWebSocket_eq sockets_handleIngest set_add_def)
next
  case (CloseEv v)
  then show ?thesis using assms by (simp add: on_close_def set_delete_def distinct_removeAll)
next
  case (ErrorEv v)
  then show ?thesis using assms
    by (simp add: on_error_def set_delete_def ws_close_def Let_def distinct_removeAll)
next
  case (MessageEv v)
  then show ?thesis using assms by (simp add: on_message_def)
next
  case (SocketFails v)
  then show ?thesis using assms by simp
qed

lemma distinct_sockets_new_world: "distinct (sockets new_world)"
  by (simp add: new_world_def)

text \<open>In every state a room can reach, the list of sockets has no repetition.\<close>

lemma distinct_sockets_run:
  "distinct (sockets st) \<Longrightarrow> distinct (sockets (run P evs st))"
  by (induction evs arbitrary: st) (simp_all add: distinct_sockets_step)

lemma distinct_sockets_reachable: "distinct (sockets (run P evs new_world))"
  by (simp add: distinct_sockets_run distinct_sockets_new_world)

section \<open>The claims\<close>

text \<open>
  C9. For every ingest request whose method is not \<open>POST\<close>, the ingest fails with
  MethodNotAllowed (status 405, \<open>Method Not Allowed\<close>), and neither the buffer nor
  the set of registered sockets is changed: the state after the call is the state
  before it.
\<close>

theorem handleIngest_method_not_allowed:
  "request_method request \<noteq> ''POST'' \<Longrightarrow>
   \<exists>resp st'. handleIngest Date_parse request st = (Inr resp, st') \<and>
     resp = text_response ''Method Not Allowed'' 405 \<and> status resp = 405 \<and>
     buffer st' = buffer st \<and> sockets st' = sockets st \<and> st' = st"
  by (simp add: handleIngest_def text_response_def)

text \<open>
  A \<open>GET\<close> to a room in use, with a body that would be a good batch: 405, and the
  room as it was.
\<close>

theorem handleIngest_method_not_allowed_witness:
  "request_method (ingest_request ''GET'' (Some (batch_of [''1970-01-01T00:00:40.000Z''])))
     \<noteq> ''POST'' \<and>
   handleIngest Date_parse_demo
     (ingest_request ''GET'' (Some (batch_of [''1970-01-01T00:00:40.000Z''])))
     busy_world = (Inr (text_response ''Method Not Allowed'' 405), busy_world)"
  using handleIngest_method_not_allowed
    [of "ingest_request ''GET'' (Some (batch_of [''1970-01-01T00:00:40.000Z'']))"
        Date_parse_demo busy_world]
  by (auto simp: ingest_request_def)

text \<open>
  C5. For every successfully ingested batch (response status 200), the \<open>received\<close>
  field of the response equals the number of samples of the batch whose capture
  time parses to a finite value, which is the number of samples the call appended
  to the buffer: the buffer after the call is the buffer before it with the
  \<open>received\<close> samples of \<open>newBuffered\<close> at its end, pruned.
\<close>

theorem received_counts_valid_samples:
  assumes "handleIngest Date_parse request st = (Inr resp, st')" and "status resp = 200"
  shows "\<exists>batch. json request = Some batch \<and>
           body resp = IngestAck True (received (body resp)) \<and>
           received (body resp) =
             length (filter (\<lambda>s. Date_parse (t_gps_utc s) \<noteq> None) (samples batch)) \<and>
           received (body resp) = length (appended Date_parse batch) \<and>
           buffer st' =
             filter (\<lambda>x. t_ms x \<ge> Max (set (parsed_times Date_parse batch)) - 30000)
               (buffer st @ appended Date_parse batch)"
proof -
  obtain b where b: "json request = Some b" "resp = ok_response (length (appended Date_parse b))"
    using handleIngest_success_iff [OF assms] by blast
  obtain b' where b': "json request = Some b'"
    "buffer st' = filter (\<lambda>x. t_ms x \<ge> Max (set (parsed_times Date_parse b')) - 30000)
                    (buffer st @ appended Date_parse b')"
    using buffer_after_ingest [OF assms] by blast
  have eq: "b' = b" using b(1) b'(1) by simp
  have "length (appended Date_parse b)
          = length (filter (\<lambda>s. Date_parse (t_gps_utc s) \<noteq> None) (samples b))"
    using length_appended [of Date_parse b] by (simp add: valid_samples_def)
  then show ?thesis using b b'(2) eq by (simp add: ok_response_def)
qed

text \<open>
  Into the room in use, whose buffer holds the sample at 1000 ms, a batch of three
  samples, at 2000 ms, with a capture time that does not parse, and at 40000 ms:
  \<open>received\<close> is 2, the two samples are appended, and the prune at 10000 ms
  leaves the sample at 40000 ms.
\<close>

theorem received_counts_valid_samples_witness:
  "handleIngest Date_parse_demo
     (ingest_request ''POST'' (Some (batch_of
        [''1970-01-01T00:00:02.000Z'', ''not-a-date'', ''1970-01-01T00:00:40.000Z''])))
     busy_world
     = (Inr (ok_response 2),
        snd (handleIngest Date_parse_demo
          (ingest_request ''POST'' (Some (batch_of
             [''1970-01-01T00:00:02.000Z'', ''not-a-date'', ''1970-01-01T00:00:40.000Z''])))
          busy_world)) \<and>
   status (ok_response 2) = 200 \<and>
   received (body (ok_response 2)) = 2 \<and>
   length (filter (\<lambda>s. Date_parse_demo (t_gps_utc s) \<noteq> None)
     (samples (batch_of
        [''1970-01-01T00:00:02.000Z'', ''not-a-date'', ''1970-01-01T00:00:40.000Z'']))) = 2 \<and>
   map t_ms (buffer busy_world) = [1000] \<and>
   map t_ms (appended Date_parse_demo (batch_of
        [''1970-01-01T00:00:02.000Z'', ''not-a-date'', ''1970-01-01T00:00:40.000Z'']))
     = [2000, 40000] \<and>
   map t_ms (buffer (snd (handleIngest Date_parse_demo
          (ingest_request ''POST'' (Some (batch_of
             [''1970-01-01T00:00:02.000Z'', ''not-a-date'', ''1970-01-01T00:00:40.000Z''])))
          busy_world))) = [40000]"
proof -
  let ?b = "batch_of [''1970-01-01T00:00:02.000Z'', ''not-a-date'', ''1970-01-01T00:00:40.000Z'']"
  let ?req = "ingest_request ''POST'' (Some ?b)"
  let ?st' = "snd (handleIngest Date_parse_demo ?req busy_world)"
  have run: "handleIngest Date_parse_demo ?req busy_world = (Inr (ok_response 2), ?st')"
    by (simp add: eval_simps)
  have ok: "status (ok_response 2) = 200"
    by (simp add: ok_response_def)
  have a: "map t_ms (appended Date_parse_demo ?b) = [2000, 40000]"
    and m: "Max (set (parsed_times Date_parse_demo ?b)) = 40000"
    and o: "map t_ms (buffer busy_world) = [1000]"
    by (simp_all add: eval_simps)
  from received_counts_valid_samples [OF run ok]
  have r: "received (body (ok_response 2)) =
          length (filter (\<lambda>s. Date_parse_demo (t_gps_utc s) \<noteq> None) (samples ?b))"
    and f: "buffer ?st' =
          filter (\<lambda>x. t_ms x \<ge> Max (set (parsed_times Date_parse_demo ?b)) - 30000)
            (buffer busy_world @ appended Date_parse_demo ?b)"
    by (auto simp: ingest_request_def)
  have "map t_ms (buffer ?st')
          = filter (\<lambda>t. t \<ge> 40000 - 30000)
              (map t_ms (buffer busy_world) @ map t_ms (appended Date_parse_demo ?b))"
    unfolding f m by (simp add: filter_map comp_def)
  then have "map t_ms (buffer ?st') = [40000]"
    unfolding a o by simp
  moreover have "received (body (ok_response 2)) = 2"
    by (simp add: ok_response_def)
  ultimately show ?thesis using run ok r a o by simp
qed



text \<open>
  C2. On every successful ingest (response status 200) the message sent to the
  viewers has type \<open>samples\<close>, carries the \<open>session_id\<close> and \<open>device_id\<close> of the
  batch, and its samples are exactly the samples of the batch whose capture time
  parses, in batch order, which are the samples this ingest appended (without
  their \<open>t_ms\<close>): the buffer after the call is the buffer before it with these
  samples at its end, pruned, and what was in the buffer before is not part of the
  message. The message is added once to the outbox of every registered socket that
  can send, and to no other. (\<open>sockets\<close> is a \<open>Set\<close>: its list has no repetition.)
\<close>

theorem ingest_broadcasts_new_samples:
  assumes "handleIngest Date_parse request st = (Inr resp, st')" and "status resp = 200"
    and "distinct (sockets st)"
  shows "\<exists>batch msg. json request = Some batch \<and>
           msg = SamplesMsg (session_id batch) (device_id batch)
                   (map rest_of (appended Date_parse batch)) \<and>
           msg_type msg = ''samples'' \<and>
           msg_samples msg = filter (\<lambda>s. Date_parse (t_gps_utc s) \<noteq> None) (samples batch) \<and>
           buffer st' =
             filter (\<lambda>x. t_ms x \<ge> Max (set (parsed_times Date_parse batch)) - 30000)
               (buffer st @ appended Date_parse batch) \<and>
           (\<forall>w. outbox st' w =
              (if w \<in> set (sockets st) \<and> w \<notin> broken st then outbox st w @ [msg]
               else outbox st w))"
proof -
  obtain b where b: "json request = Some b"
    "st' = snd (broadcast (SamplesMsg (session_id b) (device_id b) (map rest_of (appended Date_parse b)))
                   (pruneBuffer (latest_of Date_parse b) (st\<lparr>buffer := buffer st @ appended Date_parse b\<rparr>)))"
    using handleIngest_success_iff [OF assms(1,2)] by blast
  let ?msg = "SamplesMsg (session_id b) (device_id b) (map rest_of (appended Date_parse b))"
  let ?st2 = "pruneBuffer (latest_of Date_parse b) (st\<lparr>buffer := buffer st @ appended Date_parse b\<rparr>)"
  have st2: "sockets ?st2 = sockets st" "broken ?st2 = broken st" "outbox ?st2 = outbox st"
    by (simp_all add: pruneBuffer_def Let_def)
  have "\<forall>w. outbox st' w =
              (if w \<in> set (sockets st) \<and> w \<notin> broken st then outbox st w @ [?msg]
               else outbox st w)"
    using broadcast_outbox [of ?st2 ?msg] assms(3) st2 b(2) by simp
  moreover have "msg_samples ?msg = filter (\<lambda>s. Date_parse (t_gps_utc s) \<noteq> None) (samples b)"
    using map_rest_of_appended [of Date_parse b] by (simp add: valid_samples_def)
  moreover have "buffer st' =
             filter (\<lambda>x. t_ms x \<ge> Max (set (parsed_times Date_parse b)) - 30000)
               (buffer st @ appended Date_parse b)"
    using buffer_after_ingest [OF assms(1,2)] b(1) by auto
  ultimately show ?thesis using b(1) by simp
qed

text \<open>
  Into the room in use, a batch of three samples of which the second does not
  parse: the buffer goes from 1000 to 1000, 2000, 3000; socket 1 gets one message
  with the two new samples and not the sample that was in the buffer, and socket
  0, which cannot send, gets nothing.
\<close>

theorem ingest_broadcasts_new_samples_witness:
  "handleIngest Date_parse_demo
     (ingest_request ''POST'' (Some (batch_of
        [''1970-01-01T00:00:02.000Z'', ''not-a-date'', ''1970-01-01T00:00:03.000Z''])))
     busy_world
     = (Inr (ok_response 2),
        snd (handleIngest Date_parse_demo
          (ingest_request ''POST'' (Some (batch_of
             [''1970-01-01T00:00:02.000Z'', ''not-a-date'', ''1970-01-01T00:00:03.000Z''])))
          busy_world)) \<and>
   status (ok_response 2) = 200 \<and> distinct (sockets busy_world) \<and>
   map t_ms (buffer busy_world) = [1000] \<and>
   map t_ms (buffer (snd (handleIngest Date_parse_demo
          (ingest_request ''POST'' (Some (batch_of
             [''1970-01-01T00:00:02.000Z'', ''not-a-date'', ''1970-01-01T00:00:03.000Z''])))
          busy_world))) = [1000, 2000, 3000] \<and>
   outbox (snd (handleIngest Date_parse_demo
          (ingest_request ''POST'' (Some (batch_of
             [''1970-01-01T00:00:02.000Z'', ''not-a-date'', ''1970-01-01T00:00:03.000Z''])))
          busy_world)) 1
     = [Replay 30000 [],
        SamplesMsg ''s1'' ''d1''
          [sample_at ''1970-01-01T00:00:02.000Z'', sample_at ''1970-01-01T00:00:03.000Z'']] \<and>
   outbox (snd (handleIngest Date_parse_demo
          (ingest_request ''POST'' (Some (batch_of
             [''1970-01-01T00:00:02.000Z'', ''not-a-date'', ''1970-01-01T00:00:03.000Z''])))
          busy_world)) 0
     = [Replay 30000 []]"
proof -
  let ?b = "batch_of [''1970-01-01T00:00:02.000Z'', ''not-a-date'', ''1970-01-01T00:00:03.000Z'']"
  let ?req = "ingest_request ''POST'' (Some ?b)"
  let ?st' = "snd (handleIngest Date_parse_demo ?req busy_world)"
  have run: "handleIngest Date_parse_demo ?req busy_world = (Inr (ok_response 2), ?st')"
    by (simp add: eval_simps)
  have ok: "status (ok_response 2) = 200"
    by (simp add: ok_response_def)
  have d: "distinct (sockets busy_world)"
    by (simp add: busy_world_def)
  have a: "map rest_of (appended Date_parse_demo ?b)
             = [sample_at ''1970-01-01T00:00:02.000Z'', sample_at ''1970-01-01T00:00:03.000Z'']"
    by (simp add: eval_simps)
  have t: "map t_ms (buffer busy_world) = [1000]"
    and ta: "map t_ms (appended Date_parse_demo ?b) = [2000, 3000]"
    and m: "Max (set (parsed_times Date_parse_demo ?b)) = 3000"
    by (simp_all add: eval_simps)
  from ingest_broadcasts_new_samples [OF run ok d]
  have f: "buffer ?st' =
          filter (\<lambda>x. t_ms x \<ge> Max (set (parsed_times Date_parse_demo ?b)) - 30000)
            (buffer busy_world @ appended Date_parse_demo ?b)"
    by (auto simp: ingest_request_def)
  have "map t_ms (buffer ?st')
          = filter (\<lambda>t. t \<ge> 3000 - 30000)
              (map t_ms (buffer busy_world) @ map t_ms (appended Date_parse_demo ?b))"
    unfolding f m by (simp add: filter_map comp_def)
  then have bf: "map t_ms (buffer ?st') = [1000, 2000, 3000]"
    unfolding t ta by simp
  from ingest_broadcasts_new_samples [OF run ok d]
  have "\<forall>w. outbox ?st' w =
              (if w \<in> set (sockets busy_world) \<and> w \<notin> broken busy_world
               then outbox busy_world w @
                 [SamplesMsg (session_id ?b) (device_id ?b) (map rest_of (appended Date_parse_demo ?b))]
               else outbox busy_world w)"
    by (auto simp: ingest_request_def)
  then have "outbox ?st' 1 = [Replay 30000 [],
        SamplesMsg ''s1'' ''d1''
          [sample_at ''1970-01-01T00:00:02.000Z'', sample_at ''1970-01-01T00:00:03.000Z'']]"
    and "outbox ?st' 0 = [Replay 30000 []]"
    unfolding a by (simp_all add: busy_world_def batch_of_def)
  then show ?thesis using run ok d t bf by simp
qed

text \<open>
  C4. For every ingest request that reaches the parse of its batch (a \<open>POST\<close>, as
  every request to \<open>/ingest\<close> that the gateway forwards is) and whose batch
  contains samples none of whose capture times parses to a finite value, the
  ingest fails with NoValidTimestamps (status 400, \<open>No valid timestamps\<close>), and
  the state after the call, buffer and sockets included, is the state before it.
\<close>

theorem no_valid_timestamps_no_mutation:
  assumes "request_method request = ''POST''" and "json request = Some batch"
    and "samples batch \<noteq> []"
    and "\<forall>s \<in> set (samples batch). Date_parse (t_gps_utc s) = None"
  shows "\<exists>resp st'. handleIngest Date_parse request st = (Inr resp, st') \<and>
           resp = text_response ''No valid timestamps'' 400 \<and>
           400 \<le> status resp \<and> status resp < 500 \<and>
           buffer st' = buffer st \<and> sockets st' = sockets st \<and> st' = st"
proof -
  have "valid_samples Date_parse batch = []"
    using assms(4) by (simp add: valid_samples_def)
  then have "appended Date_parse batch = []"
    using length_appended [of Date_parse batch] by simp
  then show ?thesis
    using assms(1-3) by (simp add: handleIngest_cases text_response_def)
qed

text \<open>
  Into the room in use, a batch of two samples, \<open>not-a-date\<close> and the empty string:
  400, and the room as it was.
\<close>

theorem no_valid_timestamps_no_mutation_witness:
  "request_method (ingest_request ''POST'' (Some (batch_of [''not-a-date'', '''']))) = ''POST'' \<and>
   samples (batch_of [''not-a-date'', '''']) \<noteq> [] \<and>
   list_all (\<lambda>s. Date_parse_demo (t_gps_utc s) = None) (samples (batch_of [''not-a-date'', ''''])) \<and>
   handleIngest Date_parse_demo
     (ingest_request ''POST'' (Some (batch_of [''not-a-date'', '''']))) busy_world
     = (Inr (text_response ''No valid timestamps'' 400), busy_world)"
proof -
  let ?b = "batch_of [''not-a-date'', '''']"
  let ?req = "ingest_request ''POST'' (Some ?b)"
  have 1: "request_method ?req = ''POST''" and 2: "json ?req = Some ?b"
    by (simp_all add: ingest_request_def)
  have 3: "samples ?b \<noteq> []"
    by (simp add: batch_of_def)
  have 4: "\<forall>s \<in> set (samples ?b). Date_parse_demo (t_gps_utc s) = None"
    by (simp add: batch_of_def sample_at_def Date_parse_demo_def)
  from no_valid_timestamps_no_mutation [OF 1 2 3 4, of busy_world]
  have "handleIngest Date_parse_demo ?req busy_world
          = (Inr (text_response ''No valid timestamps'' 400), busy_world)"
    by auto
  then show ?thesis using 1 3 4 by (simp add: list_all_iff)
qed

text \<open>
  C8. The claim is that a body that does not decode as a Batch is answered
  MalformedInput and changes nothing. The code rejects a body only when
  \<open>request.json()\<close> throws; what \<open>request.json()\<close> returns is cast to
  \<open>TelemetryBatch\<close> and never checked. The body \<open>not_a_batch\<close> is JSON and is not a
  Batch, its \<open>seq\<close> being a string and its vectors holding \<open>null\<close>: the code
  answers it 200 with \<open>received\<close> 1, not \<open>Bad JSON\<close>, and its sample is in the
  buffer.
\<close>

theorem non_batch_body_is_ingested:
  "\<not> is_Batch not_a_batch \<and>
   handleIngest Date_parse_demo
     \<lparr>request_method = ''POST'', header_Upgrade = None, pathname = ''/ingest'',
      json = Some not_a_batch\<rparr> new_world
     = (Inr (ok_response 1),
        new_world\<lparr>buffer :=
          [\<lparr>t_gps_utc = ''1970-01-01T00:00:01.000Z'', seq = JString ''one'',
            accel_mps2 = Vec3 JNull JNull JNull, gyro_rads = Vec3 JNull JNull JNull,
            t_ms = 1000\<rparr>]\<rparr>) \<and>
   ok_response 1 \<noteq> text_response ''Bad JSON'' 400 \<and>
   buffer (snd (handleIngest Date_parse_demo
     \<lparr>request_method = ''POST'', header_Upgrade = None, pathname = ''/ingest'',
      json = Some not_a_batch\<rparr> new_world)) \<noteq> buffer (new_world :: jsval World)"
  by (simp add: eval_simps not_a_batch_def is_Batch_def is_number_def)

text \<open>
  C3. For every request with the header \<open>Upgrade: websocket\<close> (in any case of the
  letters), a new socket is registered in \<open>sockets\<close> and is sent exactly one
  message: the replay, with window size 30000 and the buffer as it is at that
  moment, in buffer order, every sample without its \<open>t_ms\<close>. This is so when the
  buffer is empty, where the replay has the empty list of samples. No other socket
  is sent anything and the buffer is not changed.
\<close>

theorem subscribe_sends_replay:
  assumes "header_Upgrade request = Some u" and "toLowerCase u = ''websocket''"
  shows "\<exists>st'. fetch Date_parse request st = (Inr (upgrade_response (next_ws st)), st') \<and>
           next_ws st \<in> set (sockets st') \<and>
           sockets st' = set_add (next_ws st) (sockets st) \<and>
           outbox st' (next_ws st) = [Replay 30000 (map rest_of (buffer st))] \<and>
           (buffer st = [] \<longrightarrow> outbox st' (next_ws st) = [Replay 30000 []]) \<and>
           (\<forall>w. w \<noteq> next_ws st \<longrightarrow> outbox st' w = outbox st w) \<and>
           buffer st' = buffer st"
  using assms by (simp add: fetch_cases acceptViewerWebSocket_eq WINDOW_MS_def set_add_def)

text \<open>
  A viewer subscribes to a new room (Scenario B) and gets the replay of the empty
  buffer; a viewer subscribes to the room in use and gets its one sample.
\<close>

theorem subscribe_sends_replay_witness:
  "toLowerCase ''WebSocket'' = ''websocket'' \<and>
   fst (fetch Date_parse_demo upgrade_request (new_world :: int World)) = Inr (upgrade_response 0) \<and>
   sockets (snd (fetch Date_parse_demo upgrade_request (new_world :: int World))) = [0] \<and>
   outbox (snd (fetch Date_parse_demo upgrade_request (new_world :: int World))) 0
     = [Replay 30000 []] \<and>
   fst (fetch Date_parse_demo upgrade_request busy_world) = Inr (upgrade_response 2) \<and>
   sockets (snd (fetch Date_parse_demo upgrade_request busy_world)) = [0, 1, 2] \<and>
   outbox (snd (fetch Date_parse_demo upgrade_request busy_world)) 2
     = [Replay 30000 [sample_at ''1970-01-01T00:00:01.000Z'']]"
proof -
  have h: "header_Upgrade upgrade_request = Some ''WebSocket''"
    by (simp add: upgrade_request_def)
  have l: "toLowerCase ''WebSocket'' = ''websocket''"
    by (simp add: toLowerCase_def lower_char_def char_of_eq_iff)
  from subscribe_sends_replay [OF h l, of Date_parse_demo "new_world :: int World"]
    subscribe_sends_replay [OF h l, of Date_parse_demo busy_world]
  show ?thesis using l
    by (auto simp: new_world_def busy_world_def set_add_def rest_of_spread)
qed

text \<open>
  C6. In \<open>broadcast\<close> a \<open>send\<close> that throws is swallowed: \<open>broadcast\<close> returns
  normally whatever sockets are broken; every registered socket that can send gets
  the message, exactly once, wherever the broken ones stand in the set; and the set
  of sockets is the same after the call. Among all events of a room, the only ones
  that take a socket out of the set are the \<open>close\<close> and the \<open>error\<close> event of
  that socket.
\<close>

theorem broadcast_swallows_send_failure:
  "fst (broadcast msg st) = Inr () \<and>
   sockets (snd (broadcast msg st)) = sockets st \<and>
   (distinct (sockets st) \<longrightarrow>
      (\<forall>w. outbox (snd (broadcast msg st)) w =
         (if w \<in> set (sockets st) \<and> w \<notin> broken st then outbox st w @ [msg]
          else outbox st w))) \<and>
   (\<forall>ev w. w \<in> set (sockets st) \<and> w \<notin> set (sockets (step Date_parse ev st)) \<longrightarrow>
      ev = CloseEv w \<or> ev = ErrorEv w)"
proof -
  have "\<forall>ev w. w \<in> set (sockets st) \<and> w \<notin> set (sockets (step Date_parse ev st)) \<longrightarrow>
      ev = CloseEv w \<or> ev = ErrorEv w"
    using sockets_step by blast
  then show ?thesis
    by (simp add: broadcast_returns broadcast_frame broadcast_outbox)
qed

text \<open>
  The room in use: \<open>send\<close> throws on socket 0, the first of the set. The broadcast
  returns, socket 1 gets the message, both sockets stay registered, and socket 0
  leaves the set at its own \<open>close\<close> event.
\<close>

theorem broadcast_swallows_send_failure_witness:
  "0 \<in> broken busy_world \<and> distinct (sockets busy_world) \<and>
   fst (broadcast hello busy_world) = Inr () \<and>
   sockets (snd (broadcast hello busy_world)) = [0, 1] \<and>
   outbox (snd (broadcast hello busy_world)) 1 = [Replay 30000 [], hello] \<and>
   outbox (snd (broadcast hello busy_world)) 0 = [Replay 30000 []] \<and>
   sockets (step Date_parse_demo (CloseEv 0) busy_world) = [1]"
proof -
  have d: "distinct (sockets busy_world)" and b: "0 \<in> broken busy_world"
    by (simp_all add: busy_world_def)
  have c: "sockets (step Date_parse_demo (CloseEv 0) busy_world) = [1]"
    by (simp add: on_close_def set_delete_def busy_world_def)
  from broadcast_swallows_send_failure [of hello busy_world Date_parse_demo] d
  have "fst (broadcast hello busy_world) = Inr ()"
    and "sockets (snd (broadcast hello busy_world)) = sockets busy_world"
    and "\<forall>w. outbox (snd (broadcast hello busy_world)) w =
         (if w \<in> set (sockets busy_world) \<and> w \<notin> broken busy_world
          then outbox busy_world w @ [hello] else outbox busy_world w)"
    by blast+
  then show ?thesis using d b c by (simp add: busy_world_def)
qed

text \<open>
  C7, as stated, fails: no buffer and no incoming batch exist for which the prune
  of a successful ingest evicts a sample strictly newer than every sample of the
  batch. The prune keeps what is at or after \<open>latest - 30000\<close>, and a sample newer
  than the whole batch is after \<open>latest\<close>.
\<close>

theorem late_batch_evicts_newer_counterexample:
  "\<not> (\<exists>Date_parse (request :: 'n Request) st resp st' batch x.
        handleIngest Date_parse request st = (Inr resp, st') \<and> status resp = 200 \<and>
        json request = Some batch \<and>
        x \<in> set (buffer st) \<and>
        list_all (\<lambda>t. t < t_ms x) (parsed_times Date_parse batch) \<and>
        x \<notin> set (buffer st'))"
proof
  assume "\<exists>Date_parse (request :: 'n Request) st resp st' batch x.
        handleIngest Date_parse request st = (Inr resp, st') \<and> status resp = 200 \<and>
        json request = Some batch \<and>
        x \<in> set (buffer st) \<and>
        list_all (\<lambda>t. t < t_ms x) (parsed_times Date_parse batch) \<and>
        x \<notin> set (buffer st')"
  then obtain P and request :: "'n Request" and st resp st' batch x where
    ok: "handleIngest P request st = (Inr resp, st')" "status resp = 200"
    and b: "json request = Some batch"
    and x: "x \<in> set (buffer st)" "list_all (\<lambda>t. t < t_ms x) (parsed_times P batch)"
      "x \<notin> set (buffer st')"
    by blast
  obtain b' where b': "json request = Some b'" "appended P b' \<noteq> []"
      "buffer st' = filter (\<lambda>x. t_ms x \<ge> Max (set (parsed_times P b')) - 30000)
                          (buffer st @ appended P b')"
    using buffer_after_ingest [OF ok] by blast
  have eq: "b' = batch" using b b'(1) by simp
  have ne: "parsed_times P batch \<noteq> []"
    using b'(2) map_t_ms_appended [of P batch] eq by (metis map_is_Nil_conv)
  then have "Max (set (parsed_times P batch)) \<in> set (parsed_times P batch)"
    using Max_in [of "set (parsed_times P batch)"] by simp
  then have "Max (set (parsed_times P batch)) < t_ms x"
    using x(2) by (simp add: list_all_iff)
  then have "x \<in> set (buffer st')"
    using x(1) b'(3) eq by simp
  then show False using x(3) by simp
qed

text \<open>
  C7, amended. For every buffer and every successfully ingested batch, the prune
  keeps every resident sample whose time is at least \<open>latest - 30000\<close>, \<open>latest\<close>
  being the largest parsed time of the batch; so it keeps every sample newer than
  the batch. What a batch with a smaller \<open>latest\<close> than the resident times does
  is leave the buffer wider than 30000 ms: with a sample at 100000 ms resident, a
  late batch at 60000 ms gives the buffer 100000, 60000.
\<close>

theorem late_batch_keeps_newer:
  "(\<forall>Date_parse (request :: 'n Request) st resp st' batch x.
      handleIngest Date_parse request st = (Inr resp, st') \<and> status resp = 200 \<and>
      json request = Some batch \<and> x \<in> set (buffer st) \<and>
      t_ms x \<ge> Max (set (parsed_times Date_parse batch)) - 30000
      \<longrightarrow> x \<in> set (buffer st')) \<and>
   map t_ms (buffer (fst late_batch_run)) = [100000] \<and>
   map t_ms (buffer (snd late_batch_run)) = [100000, 60000]"
proof -
  have "x \<in> set (buffer st')"
    if ok: "handleIngest P request st = (Inr resp, st')" "status resp = 200"
      and b: "json request = Some batch" and x: "x \<in> set (buffer st)"
        "t_ms x \<ge> Max (set (parsed_times P batch)) - 30000"
    for P and request :: "'n Request" and st resp st' batch x
  proof -
    obtain b' where b': "json request = Some b'"
      "buffer st' = filter (\<lambda>x. t_ms x \<ge> Max (set (parsed_times P b')) - 30000)
                          (buffer st @ appended P b')"
      using buffer_after_ingest [OF ok] by blast
    then show ?thesis using b x by simp
  qed
  moreover have "map t_ms (buffer (fst late_batch_run)) = [100000] \<and>
    map t_ms (buffer (snd late_batch_run)) = [100000, 60000]"
    by (simp add: late_batch_run_def eval_simps)
  ultimately show ?thesis by blast
qed

text \<open>
  The late batch of the run above: the resident sample at 100000 ms is newer than
  the batch and stays.
\<close>

theorem late_batch_keeps_newer_witness:
  "handleIngest Date_parse_demo
     (ingest_request ''POST'' (Some (batch_of [''1970-01-01T00:01:00.000Z''])))
     (fst late_batch_run) = (Inr (ok_response 1), snd late_batch_run) \<and>
   status (ok_response 1) = 200 \<and>
   spread_t_ms (sample_at ''1970-01-01T00:01:40.000Z'') 100000 \<in> set (buffer (fst late_batch_run)) \<and>
   Max (set (parsed_times Date_parse_demo (batch_of [''1970-01-01T00:01:00.000Z'']))) = 60000 \<and>
   spread_t_ms (sample_at ''1970-01-01T00:01:40.000Z'') 100000 \<in> set (buffer (snd late_batch_run))"
proof -
  let ?b = "batch_of [''1970-01-01T00:01:00.000Z'']"
  let ?req = "ingest_request ''POST'' (Some ?b)"
  let ?x = "spread_t_ms (sample_at ''1970-01-01T00:01:40.000Z'') 100000"
  have run: "handleIngest Date_parse_demo ?req (fst late_batch_run)
               = (Inr (ok_response 1), snd late_batch_run)"
    by (simp add: late_batch_run_def eval_simps)
  have ok: "status (ok_response 1) = 200"
    by (simp add: ok_response_def)
  have j: "json ?req = Some ?b"
    by (simp add: ingest_request_def)
  have x: "?x \<in> set (buffer (fst late_batch_run))"
    by (simp add: late_batch_run_def eval_simps)
  have m: "Max (set (parsed_times Date_parse_demo ?b)) = 60000"
    by (simp add: eval_simps)
  have t: "t_ms ?x \<ge> Max (set (parsed_times Date_parse_demo ?b)) - 30000"
    unfolding m by (simp add: t_ms_spread)
  from late_batch_keeps_newer run ok j x t
  have "?x \<in> set (buffer (snd late_batch_run))"
    by blast
  then show ?thesis using run ok x m by simp
qed

text \<open>
  C10. \<open>fetch\<close> treats every request whose \<open>Upgrade\<close> header equals \<open>websocket\<close>,
  case-insensitively, as a subscription, whatever its path and method: the result
  is that of \<open>acceptViewerWebSocket\<close>. A request without the header, or with a
  value of ASCII characters that is not \<open>websocket\<close> in any case of the letters,
  reaches the test of the path, where \<open>/ingest\<close> goes to \<open>handleIngest\<close> and every
  other path is answered 404. (Of values with characters outside ASCII nothing is
  said here: \<open>toLowerCase\<close> of the engine takes some of them, such as one written
  with the Kelvin sign for \<open>k\<close>, to \<open>websocket\<close> as well.) So a \<open>POST\<close> to \<open>/ingest\<close>
  with \<open>Upgrade: WebSocket\<close> and a good batch in its body is a subscription: a
  socket is registered and the buffer is as before.
\<close>

theorem upgrade_header_before_path:
  "(header_Upgrade request = Some u \<and> equal_ignoring_case u ''websocket'' \<longrightarrow>
      fetch Date_parse request st = acceptViewerWebSocket st) \<and>
   (header_Upgrade request = None \<or>
    (\<exists>v. header_Upgrade request = Some v \<and> (\<forall>c \<in> set v. (of_char c :: nat) < 128) \<and>
         \<not> equal_ignoring_case v ''websocket'') \<longrightarrow>
      fetch Date_parse request st =
        (if pathname request = ''/ingest'' then handleIngest Date_parse request st
         else (Inr (text_response ''Not Found'' 404), st))) \<and>
   equal_ignoring_case ''WebSocket'' ''websocket'' \<and>
   request_method upgrade_request = ''POST'' \<and> pathname upgrade_request = ''/ingest'' \<and>
   fst (fetch Date_parse_demo upgrade_request busy_world) = Inr (upgrade_response 2) \<and>
   sockets (snd (fetch Date_parse_demo upgrade_request busy_world)) = [0, 1, 2] \<and>
   buffer (snd (fetch Date_parse_demo upgrade_request busy_world)) = buffer busy_world"
proof -
  have e: "equal_ignoring_case ''WebSocket'' ''websocket''"
    by (simp add: equal_ignoring_case_def ascii_lower_def char_of_eq_iff)
  then have l: "toLowerCase ''WebSocket'' = ''websocket''"
    by (rule toLowerCase_websocket)
  have "fetch Date_parse_demo upgrade_request busy_world = acceptViewerWebSocket busy_world"
    using l by (simp add: fetch_cases upgrade_request_def)
  then have "fst (fetch Date_parse_demo upgrade_request busy_world) = Inr (upgrade_response 2)"
    and "sockets (snd (fetch Date_parse_demo upgrade_request busy_world)) = [0, 1, 2]"
    and "buffer (snd (fetch Date_parse_demo upgrade_request busy_world)) = buffer busy_world"
    by (simp_all add: acceptViewerWebSocket_eq busy_world_def set_add_def)
  moreover have "request_method upgrade_request = ''POST''" "pathname upgrade_request = ''/ingest''"
    by (simp_all add: upgrade_request_def)
  ultimately show ?thesis
    using e toLowerCase_websocket toLowerCase_not_websocket by (auto simp: fetch_cases)
qed

text \<open>
  The same request without the header is an ingest; with the header in capital
  letters it is a subscription.
\<close>

theorem upgrade_header_before_path_witness:
  "equal_ignoring_case ''WEBSOCKET'' ''websocket'' \<and>
   fetch Date_parse_demo (upgrade_request\<lparr>header_Upgrade := Some ''WEBSOCKET''\<rparr>) busy_world
     = acceptViewerWebSocket busy_world \<and>
   fetch Date_parse_demo (upgrade_request\<lparr>header_Upgrade := None\<rparr>) busy_world
     = handleIngest Date_parse_demo (upgrade_request\<lparr>header_Upgrade := None\<rparr>) busy_world \<and>
   fetch Date_parse_demo (upgrade_request\<lparr>header_Upgrade := Some ''h2c''\<rparr>) busy_world
     = handleIngest Date_parse_demo (upgrade_request\<lparr>header_Upgrade := Some ''h2c''\<rparr>) busy_world"
proof -
  have e: "equal_ignoring_case ''WEBSOCKET'' ''websocket''"
    and n: "\<not> equal_ignoring_case ''h2c'' ''websocket''"
    by (simp_all add: equal_ignoring_case_def ascii_lower_def char_of_eq_iff)
  have a: "\<forall>c \<in> set ''h2c''. (of_char c :: nat) < 128"
    by simp
  have p: "pathname (upgrade_request\<lparr>header_Upgrade := h\<rparr>) = ''/ingest''" for h
    by (simp add: upgrade_request_def)
  from upgrade_header_before_path
      [of "upgrade_request\<lparr>header_Upgrade := Some ''WEBSOCKET''\<rparr>" "''WEBSOCKET''"
          Date_parse_demo busy_world]
    upgrade_header_before_path
      [of "upgrade_request\<lparr>header_Upgrade := None\<rparr>" "''h2c''" Date_parse_demo busy_world]
    upgrade_header_before_path
      [of "upgrade_request\<lparr>header_Upgrade := Some ''h2c''\<rparr>" "''h2c''" Date_parse_demo busy_world]
  show ?thesis using e n a p by simp
qed

end
